theory Spec2Isabelle
  imports Complex_Main "HOL-Library.Log_Nat"
begin

section \<open>Python values used by app.py\<close>

text \<open>
  The exceptions of the Python runtime that the modelled functions can raise.
\<close>

datatype py_error = ZeroDivisionError | OverflowError

subsection \<open>Floats\<close>

text \<open>
  A Python float is an IEEE 754 binary64 number.  A finite double is modelled by the
  rational number it denotes.  Both a float literal of the source (\<^verbatim>\<open>0.95\<close>) and the true
  division \<^verbatim>\<open>raw / total\<close> of two ints are correctly rounded: the result is the double
  nearest to the exact value, ties going to the even significand.  \<open>round_double\<close> is
  that rounding: 53 significant bits, the exponent of the last place (\<open>ulp_exp\<close>) never
  below \<open>-1074\<close> (subnormal numbers).  \<open>binade x\<close> is the exponent \<open>e\<close> with
  \<open>2 ^ e \<le> x < 2 ^ (e + 1)\<close>.
\<close>

definition binade :: "rat \<Rightarrow> int" where
  "binade x = (if 1 \<le> x then bitlen \<lfloor>x\<rfloor> - 1 else - bitlen (\<lceil>1 / x\<rceil> - 1))"

definition ulp_exp :: "rat \<Rightarrow> int" where
  "ulp_exp x = max (binade x - 52) (- 1074)"

definition round_half_even :: "rat \<Rightarrow> int" where
  "round_half_even m =
     (let f = \<lfloor>m\<rfloor>; r = m - of_int f
      in if r < 1 / 2 then f else if 1 / 2 < r then f + 1 else if even f then f else f + 1)"

definition round_double :: "rat \<Rightarrow> rat" where
  "round_double x =
     (if x = 0 then 0
      else let q = ulp_exp \<bar>x\<bar>
           in sgn x * of_int (round_half_even (\<bar>x\<bar> / 2 powi q)) * 2 powi q)"

text \<open>
  \<^verbatim>\<open>a / b\<close> on ints: ZeroDivisionError when \<open>b\<close> is zero, OverflowError when the rounded
  quotient is beyond the largest double, the correctly rounded quotient otherwise.
\<close>

definition py_truediv :: "int \<Rightarrow> int \<Rightarrow> py_error + rat" where
  "py_truediv a b =
     (if b = 0 then Inl ZeroDivisionError
      else let r = round_double (of_int a / of_int b)
           in if 2 ^ 1024 \<le> \<bar>r\<bar> then Inl OverflowError else Inr r)"

subsection \<open>Strings\<close>

text \<open>
  Python's \<^verbatim>\<open>str.lower\<close> and \<^verbatim>\<open>str.strip\<close> belong to the runtime, not to app.py; the
  model takes them as parameters, so every result holds for whatever they compute.
  \<open>ascii_ops\<close> is one instance (lower-casing of the ASCII letters, stripping of blanks),
  used where a concrete run is evaluated.  A value that may be None (a NULL column, a
  missing JSON member) is a \<open>string option\<close>; \<open>or_empty v\<close> is \<^verbatim>\<open>v or ""\<close>.
\<close>

record str_ops =
  str_lower :: "string \<Rightarrow> string"
  str_strip :: "string \<Rightarrow> string"

definition or_empty :: "string option \<Rightarrow> string" where
  "or_empty v = (case v of None \<Rightarrow> [] | Some s \<Rightarrow> s)"

definition ascii_lower_char :: "char \<Rightarrow> char" where
  "ascii_lower_char c =
     (case map_of (zip ''ABCDEFGHIJKLMNOPQRSTUVWXYZ'' ''abcdefghijklmnopqrstuvwxyz'') c of
        None \<Rightarrow> c
      | Some l \<Rightarrow> l)"

definition ascii_ops :: str_ops where
  "ascii_ops =
     \<lparr>str_lower = map ascii_lower_char,
      str_strip = (\<lambda>s. rev (dropWhile (\<lambda>c. c = CHR '' '') (rev (dropWhile (\<lambda>c. c = CHR '' '') s))))\<rparr>"

section \<open>The scoring function\<close>

text \<open>
  \<^verbatim>\<open>
  def band_from_raw(raw, total):
      if not total:
          return 0.0
      pct = raw / total
      if pct >= 0.95: return 9.0
      if pct >= 0.9: return 8.5
      if pct >= 0.85: return 8.0
      if pct >= 0.75: return 7.5
      if pct >= 0.7: return 7.0
      if pct >= 0.65: return 6.5
      if pct >= 0.6: return 6.0
      if pct >= 0.55: return 5.5
      if pct >= 0.5: return 5.0
      if pct >= 0.45: return 4.5
      return 4.0
  \<close>
  Every literal is the double nearest to the decimal written in the source.
\<close>

definition band_of_pct :: "rat \<Rightarrow> rat" where
  "band_of_pct pct =
     (if round_double (95 / 100) \<le> pct then 9
      else if round_double (9 / 10) \<le> pct then 17 / 2
      else if round_double (85 / 100) \<le> pct then 8
      else if round_double (75 / 100) \<le> pct then 15 / 2
      else if round_double (7 / 10) \<le> pct then 7
      else if round_double (65 / 100) \<le> pct then 13 / 2
      else if round_double (6 / 10) \<le> pct then 6
      else if round_double (55 / 100) \<le> pct then 11 / 2
      else if round_double (5 / 10) \<le> pct then 5
      else if round_double (45 / 100) \<le> pct then 9 / 2
      else 4)"

definition band_from_raw :: "int \<Rightarrow> int \<Rightarrow> py_error + rat" where
  "band_from_raw raw tot =
     (if tot = 0 then Inr 0
      else case py_truediv raw tot of
             Inl e \<Rightarrow> Inl e
           | Inr pct \<Rightarrow> Inr (band_of_pct pct))"

subsection \<open>The threshold table as the specification words it\<close>

text \<open>
  The specification's table, over the exact percentage: the thresholds are tested from
  the highest to the lowest, the first one the percentage reaches gives the band, and
  the band is 4.0 when it reaches none.
\<close>

definition spec_band_table :: "(rat \<times> rat) list" where
  "spec_band_table =
     [(95 / 100, 9), (90 / 100, 17 / 2), (85 / 100, 8), (75 / 100, 15 / 2), (70 / 100, 7),
      (65 / 100, 13 / 2), (60 / 100, 6), (55 / 100, 11 / 2), (50 / 100, 5), (45 / 100, 9 / 2)]"

fun spec_first_match :: "rat \<Rightarrow> (rat \<times> rat) list \<Rightarrow> rat" where
  "spec_first_match p [] = 4"
| "spec_first_match p ((t, b) # rest) = (if t \<le> p then b else spec_first_match p rest)"

definition spec_band :: "int \<Rightarrow> int \<Rightarrow> rat" where
  "spec_band correct tot = spec_first_match (of_int correct / of_int tot) spec_band_table"

section \<open>The grading step of api\_answer\<close>

text \<open>
  \<^verbatim>\<open>
  correct = 0
  if q["qtype"] == "mcq":
      correct = 1 if response == q["answer_key"] else 0
  else:
      correct = 1 if response.lower() == (q["answer_key"] or "").lower() else 0
  \<close>
\<close>

definition grade :: "str_ops \<Rightarrow> string option \<Rightarrow> string option \<Rightarrow> string \<Rightarrow> int" where
  "grade ops qtype answer_key response =
     (if qtype = Some ''mcq''
      then (if Some response = answer_key then 1 else 0)
      else (if str_lower ops response = str_lower ops (or_empty answer_key) then 1 else 0))"

section \<open>The database\<close>

text \<open>
  The tables of \<open>init_db\<close> that \<open>api_answer\<close> and \<open>test_finish\<close> read or write, each a list
  of rows in rowid order, with the columns those two functions touch (a test's title,
  section, level, duration and audio file, and a question's prompt, options and order
  are carried by neither).  \<open>fetchone\<close> of a \<^verbatim>\<open>SELECT ... WHERE\<close> is \<open>find\<close>;
  \<^verbatim>\<open>UPDATE ... WHERE\<close> maps over the rows that match; \<^verbatim>\<open>COUNT(*)\<close> is the length of a
  filter.  A double (\<open>band_score REAL\<close>) is the rational it denotes.
\<close>

record test_row =
  t_id :: int
  t_slug :: string

record question_row =
  q_id :: int
  q_test_id :: int
  q_qtype :: "string option"
  q_answer_key :: "string option"

record submission_row =
  s_id :: int
  s_user_id :: int
  s_test_id :: int
  s_started_at :: "string option"
  s_finished_at :: "string option"
  s_raw_score :: int
  s_band_score :: rat

record answer_row =
  a_id :: int
  a_submission_id :: int
  a_question_id :: int
  a_response :: string
  a_is_correct :: int

record db =
  tests :: "test_row list"
  questions :: "question_row list"
  submissions :: "submission_row list"
  answers :: "answer_row list"

text \<open>
  \<^verbatim>\<open>id INTEGER PRIMARY KEY AUTOINCREMENT\<close>: an inserted row gets an id above every id
  of its table.  app.py deletes no row, so that is one more than the largest id present.
\<close>

definition next_id :: "int list \<Rightarrow> int" where
  "next_id ids = fold max ids 0 + 1"

text \<open>What a view returns: the JSON body and status, or the redirect.\<close>

datatype reply =
    Json_ok bool
  | Json_not_ok_400
  | Redirect_dashboard
  | Redirect_results int
  | Internal_error py_error

section \<open>api\_answer\<close>

text \<open>
  \<^verbatim>\<open>
  def api_answer():
      data = request.get_json() or {}
      submission_id = int(data.get("submission_id", 0))
      question_id = int(data.get("question_id", 0))
      response = (data.get("response") or "").strip()
      db = get_db()
      sub = db.execute("SELECT * FROM submissions WHERE id = ?", (submission_id,)).fetchone()
      if not sub or sub["user_id"] != current_user.id:
          return jsonify({"ok": False}), 400
      q = db.execute("SELECT * FROM questions WHERE id = ?", (question_id,)).fetchone()
      if not q:
          return jsonify({"ok": False}), 400
      ... grading ...
      existing = db.execute(
          "SELECT id FROM answers WHERE submission_id = ? AND question_id = ?",
          (submission_id, question_id)).fetchone()
      if existing:
          db.execute("UPDATE answers SET response=?, is_correct=? WHERE id=?",
                     (response, correct, existing["id"]))
      else:
          db.execute("INSERT INTO answers (submission_id, question_id, response, is_correct)"
                     " VALUES (?, ?, ?, ?)", (submission_id, question_id, response, correct))
      db.commit()
      return jsonify({"ok": True, "is_correct": bool(correct)})
  \<close>
  The arguments are the logged-in user's id, the two ids after \<open>int(...)\<close>, and the
  \<open>response\<close> member of the JSON body (None when it is missing or null).  The result is
  the reply and the database the request leaves behind.
\<close>

definition answers_for :: "int \<Rightarrow> int \<Rightarrow> answer_row \<Rightarrow> bool" where
  "answers_for submission_id question_id a \<longleftrightarrow>
     a_submission_id a = submission_id \<and> a_question_id a = question_id"

definition api_answer ::
  "str_ops \<Rightarrow> db \<Rightarrow> int \<Rightarrow> int \<Rightarrow> int \<Rightarrow> string option \<Rightarrow> reply \<times> db" where
  "api_answer ops d current_user_id submission_id question_id resp =
     (let response = str_strip ops (or_empty resp)
      in case find (\<lambda>s. s_id s = submission_id) (submissions d) of
           None \<Rightarrow> (Json_not_ok_400, d)
         | Some sub \<Rightarrow>
             if s_user_id sub \<noteq> current_user_id then (Json_not_ok_400, d)
             else case find (\<lambda>q. q_id q = question_id) (questions d) of
                    None \<Rightarrow> (Json_not_ok_400, d)
                  | Some q \<Rightarrow>
                      let correct = grade ops (q_qtype q) (q_answer_key q) response
                      in case find (answers_for submission_id question_id) (answers d) of
                           Some existing \<Rightarrow>
                             (Json_ok (correct \<noteq> 0),
                              d\<lparr>answers :=
                                   map (\<lambda>a. if a_id a = a_id existing
                                             then a\<lparr>a_response := response, a_is_correct := correct\<rparr>
                                             else a)
                                       (answers d)\<rparr>)
                         | None \<Rightarrow>
                             (Json_ok (correct \<noteq> 0),
                              d\<lparr>answers :=
                                   answers d @
                                   [\<lparr>a_id = next_id (map a_id (answers d)),
                                     a_submission_id = submission_id,
                                     a_question_id = question_id,
                                     a_response = response,
                                     a_is_correct = correct\<rparr>]\<rparr>))"

text \<open>A client that answers the same question again and again, one request per response.\<close>

fun api_answer_repeat ::
  "str_ops \<Rightarrow> db \<Rightarrow> int \<Rightarrow> int \<Rightarrow> int \<Rightarrow> string option list \<Rightarrow> db" where
  "api_answer_repeat ops d u s q [] = d"
| "api_answer_repeat ops d u s q (r # rs) =
     api_answer_repeat ops (snd (api_answer ops d u s q r)) u s q rs"

text \<open>
  What holds of the answers table in every database the application builds: ids are a
  primary key, and \<open>api_answer\<close>, the only writer of the table, keeps one row per
  (submission, question) pair.
\<close>

definition answers_wf :: "db \<Rightarrow> bool" where
  "answers_wf d \<longleftrightarrow>
     distinct (map a_id (answers d)) \<and>
     distinct (map (\<lambda>a. (a_submission_id a, a_question_id a)) (answers d))"

section \<open>test\_finish\<close>

text \<open>
  \<^verbatim>\<open>
  def test_finish(slug, submission_id):
      db = get_db()
      test = db.execute("SELECT * FROM tests WHERE slug = ?", (slug,)).fetchone()
      sub = db.execute("SELECT * FROM submissions WHERE id = ?", (submission_id,)).fetchone()
      if not test or not sub or sub["user_id"] != current_user.id:
          flash("Xatolik", "danger")
          return redirect(url_for("dashboard"))
      total = db.execute("SELECT COUNT(*) AS c FROM questions WHERE test_id=?",
                         (test["id"],)).fetchone()["c"]
      correct = db.execute(
          "SELECT COUNT(*) AS c FROM answers WHERE submission_id=? AND is_correct=1",
          (submission_id,)).fetchone()["c"]
      band = band_from_raw(correct, total)
      now = datetime.datetime.utcnow().isoformat()
      db.execute("UPDATE submissions SET raw_score=?, band_score=?, finished_at=? WHERE id=?",
                 (correct, band, now, submission_id))
      db.commit()
      return redirect(url_for("results_view", submission_id=submission_id))
  \<close>
  \<open>now\<close> is what the clock reads, \<open>utcnow().isoformat()\<close>.  An exception of
  \<open>band_from_raw\<close> ends the request before the UPDATE.
\<close>

definition count_questions :: "db \<Rightarrow> int \<Rightarrow> int" where
  "count_questions d test_id = int (length (filter (\<lambda>q. q_test_id q = test_id) (questions d)))"

definition count_correct :: "db \<Rightarrow> int \<Rightarrow> int" where
  "count_correct d submission_id =
     int (length (filter (\<lambda>a. a_submission_id a = submission_id \<and> a_is_correct a = 1) (answers d)))"

definition test_finish :: "db \<Rightarrow> int \<Rightarrow> string \<Rightarrow> string \<Rightarrow> int \<Rightarrow> reply \<times> db" where
  "test_finish d current_user_id now slug submission_id =
     (case find (\<lambda>t. t_slug t = slug) (tests d) of
        None \<Rightarrow> (Redirect_dashboard, d)
      | Some test \<Rightarrow>
          (case find (\<lambda>s. s_id s = submission_id) (submissions d) of
             None \<Rightarrow> (Redirect_dashboard, d)
           | Some sub \<Rightarrow>
               if s_user_id sub \<noteq> current_user_id then (Redirect_dashboard, d)
               else let tot = count_questions d (t_id test);
                        correct = count_correct d submission_id
                    in case band_from_raw correct tot of
                         Inl e \<Rightarrow> (Internal_error e, d)
                       | Inr band \<Rightarrow>
                           (Redirect_results submission_id,
                            d\<lparr>submissions :=
                                 map (\<lambda>s. if s_id s = submission_id
                                           then s\<lparr>s_raw_score := correct, s_band_score := band,
                                                  s_finished_at := Some now\<rparr>
                                           else s)
                                     (submissions d)\<rparr>)))"

section \<open>Rounding to the nearest double\<close>

lemma bitlen_pos: "0 < n \<Longrightarrow> 1 \<le> bitlen n"
  using bitlen_eq_zero_iff[of n] bitlen_nonneg[of n] by linarith

lemma binade_bounds:
  assumes "0 < x"
  shows "2 powi (binade x) \<le> x \<and> x < 2 powi (binade x + 1)"
proof (cases "1 \<le> x")
  case True
  then have p: "0 < \<lfloor>x\<rfloor>" by simp
  define k where "k = bitlen \<lfloor>x\<rfloor>"
  from bitlen_bounds[OF p] have a: "2 ^ nat (k - 1) \<le> \<lfloor>x\<rfloor>" and b: "\<lfloor>x\<rfloor> < 2 ^ nat k"
    by (auto simp: k_def)
  have bl: "1 \<le> k" using bitlen_pos[OF p] by (simp add: k_def)
  have e: "binade x = k - 1" using True by (simp add: binade_def k_def)
  have "(of_int (2 ^ nat (k - 1)) :: rat) \<le> of_int \<lfloor>x\<rfloor>" using a by (simp only: of_int_le_iff)
  also have "\<dots> \<le> x" by simp
  finally have lo: "2 powi (k - 1) \<le> x" using bl by (simp add: power_int_def)
  have "\<lfloor>x\<rfloor> + 1 \<le> 2 ^ nat k" using b by simp
  then have "(of_int (\<lfloor>x\<rfloor> + 1) :: rat) \<le> of_int (2 ^ nat k)" by (simp only: of_int_le_iff)
  moreover have "x < of_int (\<lfloor>x\<rfloor> + 1)" by linarith
  ultimately have hi: "x < 2 powi k" using bl by (simp add: power_int_def)
  from lo hi e show ?thesis by simp
next
  case False
  define y where "y = 1 / x"
  have y1: "1 < y" using False assms by (simp add: y_def)
  have x: "x = 1 / y" by (simp add: y_def)
  have c: "0 < \<lceil>y\<rceil> - 1" using y1 by linarith
  define k where "k = bitlen (\<lceil>y\<rceil> - 1)"
  from bitlen_bounds[OF c] have a: "2 ^ nat (k - 1) \<le> \<lceil>y\<rceil> - 1" and b: "\<lceil>y\<rceil> - 1 < 2 ^ nat k"
    by (auto simp: k_def)
  have bl: "1 \<le> k" using bitlen_pos[OF c] by (simp add: k_def)
  have e: "binade x = - k" using False by (simp add: binade_def k_def y_def)
  have "\<lceil>y\<rceil> \<le> 2 ^ nat k" using b by simp
  then have "(of_int \<lceil>y\<rceil> :: rat) \<le> of_int (2 ^ nat k)" by (simp only: of_int_le_iff)
  then have yk: "y \<le> 2 ^ nat k" by (simp add: ceiling_le_iff)
  have "1 / (2 ^ nat k) \<le> 1 / y" using yk y1 by (simp add: frac_le)
  then have lo: "2 powi (- k) \<le> x" using bl x by (simp add: power_int_def field_simps)
  have "(of_int (2 ^ nat (k - 1)) :: rat) \<le> of_int (\<lceil>y\<rceil> - 1)" using a by (simp only: of_int_le_iff)
  moreover have "of_int (\<lceil>y\<rceil> - 1) < y" by linarith
  ultimately have ky: "2 ^ nat (k - 1) < y" by simp
  have "1 / y < 1 / (2 ^ nat (k - 1))" using ky by (simp add: frac_less2)
  moreover have "2 powi (- k + 1) = (1 :: rat) / (2 ^ nat (k - 1))"
  proof (cases "k = 1")
    case True then show ?thesis by simp
  next
    case False
    then have "- k + 1 < 0" using bl by simp
    then show ?thesis by (simp add: power_int_def field_simps)
  qed
  ultimately have hi: "x < 2 powi (- k + 1)" using x by simp
  from lo hi e show ?thesis by simp
qed

lemma binade_unique:
  assumes "2 powi e \<le> x" "x < 2 powi (e + 1)"
  shows "binade x = e"
proof -
  have x0: "0 < x" using assms(1) zero_less_power_int[of "2::rat" e] by linarith
  note b = binade_bounds[OF x0]
  have "(2::rat) powi e < 2 powi (binade x + 1)" using assms(1) b by linarith
  then have 1: "e < binade x + 1"
    using power_int_increasing[of "binade x + 1" e "2::rat"] by (cases "e < binade x + 1") auto
  have "(2::rat) powi (binade x) < 2 powi (e + 1)" using assms(2) b by linarith
  then have 2: "binade x < e + 1"
    using power_int_increasing[of "e + 1" "binade x" "2::rat"] by (cases "binade x < e + 1") auto
  from 1 2 show ?thesis by simp
qed

lemma binade_mono: "0 < x \<Longrightarrow> x \<le> y \<Longrightarrow> binade x \<le> binade y"
proof -
  assume x: "0 < x" and xy: "x \<le> y"
  then have y: "0 < y" by simp
  have "(2::rat) powi (binade x) < 2 powi (binade y + 1)"
    using binade_bounds[OF x] binade_bounds[OF y] xy by linarith
  then show ?thesis
    using power_int_increasing[of "binade y + 1" "binade x" "2::rat"] by (cases "binade x < binade y + 1") auto
qed

lemma rhe_floor_le: "\<lfloor>m\<rfloor> \<le> round_half_even m"
  by (simp add: round_half_even_def Let_def)

lemma rhe_le_floor1: "round_half_even m \<le> \<lfloor>m\<rfloor> + 1"
  by (simp add: round_half_even_def Let_def)

lemma rhe_of_int: "round_half_even (of_int N) = N"
  by (simp add: round_half_even_def Let_def)

lemma rhe_le: "m \<le> of_int N \<Longrightarrow> round_half_even m \<le> N"
proof -
  assume a: "m \<le> of_int N"
  then have f: "\<lfloor>m\<rfloor> \<le> N" by (metis floor_mono floor_of_int)
  show ?thesis
  proof (cases "\<lfloor>m\<rfloor> = N")
    case True
    then have "of_int N \<le> m" by (metis of_int_floor_le)
    with a have "m = of_int N" by simp
    then show ?thesis by (simp add: rhe_of_int)
  next
    case False
    with f have "\<lfloor>m\<rfloor> + 1 \<le> N" by simp
    with rhe_le_floor1[of m] show ?thesis by linarith
  qed
qed

lemma rhe_ge: "of_int N \<le> m \<Longrightarrow> N \<le> round_half_even m"
proof -
  assume "of_int N \<le> m"
  then have "N \<le> \<lfloor>m\<rfloor>" by (simp add: le_floor_iff)
  with rhe_floor_le[of m] show ?thesis by linarith
qed

lemma rhe_mono: "m \<le> m' \<Longrightarrow> round_half_even m \<le> round_half_even m'"
proof -
  assume a: "m \<le> m'"
  then have f: "\<lfloor>m\<rfloor> \<le> \<lfloor>m'\<rfloor>" by (rule floor_mono)
  show ?thesis
  proof (cases "\<lfloor>m\<rfloor> = \<lfloor>m'\<rfloor>")
    case True
    with a show ?thesis by (auto simp: round_half_even_def Let_def)
  next
    case False
    with f have "\<lfloor>m\<rfloor> + 1 \<le> \<lfloor>m'\<rfloor>" by simp
    with rhe_le_floor1[of m] rhe_floor_le[of m'] show ?thesis by linarith
  qed
qed

lemma rhe_err: "\<bar>of_int (round_half_even m) - m\<bar> \<le> 1 / 2"
proof -
  have "of_int \<lfloor>m\<rfloor> \<le> m" "m < of_int \<lfloor>m\<rfloor> + 1" by linarith+
  then show ?thesis by (auto simp: round_half_even_def Let_def abs_le_iff)
qed

lemma round_double_pos:
  "0 < x \<Longrightarrow> round_double x = of_int (round_half_even (x / 2 powi (ulp_exp x))) * 2 powi (ulp_exp x)"
  by (simp add: round_double_def ulp_exp_def Let_def)

lemma round_double_nonneg: "0 \<le> x \<Longrightarrow> 0 \<le> round_double x"
proof (cases "x = 0")
  case True then show ?thesis by (simp add: round_double_def)
next
  case False
  assume "0 \<le> x"
  with False have x: "0 < x" by simp
  have "of_int 0 \<le> x / 2 powi (ulp_exp x)" using x by simp
  then have "0 \<le> round_half_even (x / 2 powi (ulp_exp x))" by (rule rhe_ge)
  then show ?thesis using x by (simp add: round_double_pos)
qed

lemma pow2_split: "(2::rat) powi a = of_int (2 ^ nat (a - b)) * 2 powi b" if "b \<le> a"
proof -
  have "(2::rat) powi a = 2 powi ((a - b) + b)" by simp
  also have "\<dots> = 2 powi (a - b) * 2 powi b" by (rule power_int_add) simp
  also have "(2::rat) powi (a - b) = of_int (2 ^ nat (a - b))" using that by (simp add: power_int_def)
  finally show ?thesis .
qed

lemma round_double_le_pow2:
  assumes x: "0 < x" and le: "x \<le> 2 powi a" and q: "ulp_exp x \<le> a"
  shows "round_double x \<le> 2 powi a"
proof -
  let ?q = "ulp_exp x"
  have p: "(0::rat) < 2 powi ?q" by simp
  have "x / 2 powi ?q \<le> 2 powi a / 2 powi ?q" using le p by (simp add: divide_right_mono)
  also have "\<dots> = of_int (2 ^ nat (a - ?q))" using pow2_split[OF q] by simp
  finally have "round_half_even (x / 2 powi ?q) \<le> 2 ^ nat (a - ?q)" by (rule rhe_le)
  then have "(of_int (round_half_even (x / 2 powi ?q)) :: rat) \<le> of_int (2 ^ nat (a - ?q))"
    by (simp only: of_int_le_iff)
  then have "of_int (round_half_even (x / 2 powi ?q)) * 2 powi ?q \<le> (of_int (2 ^ nat (a - ?q)) :: rat) * 2 powi ?q"
    using p by (simp only: mult_le_cancel_right_pos)
  then show ?thesis using pow2_split[OF q] x by (simp only: round_double_pos)
qed

lemma round_double_ge_pow2:
  assumes x: "0 < x" and le: "2 powi a \<le> x" and q: "ulp_exp x \<le> a"
  shows "2 powi a \<le> round_double x"
proof -
  let ?q = "ulp_exp x"
  have p: "(0::rat) < 2 powi ?q" by simp
  have "2 powi a / 2 powi ?q \<le> x / 2 powi ?q" using le p by (simp add: divide_right_mono)
  moreover have "2 powi a / 2 powi ?q = (of_int (2 ^ nat (a - ?q)) :: rat)" using pow2_split[OF q] by simp
  ultimately have "of_int (2 ^ nat (a - ?q)) \<le> x / 2 powi ?q" by simp
  then have "2 ^ nat (a - ?q) \<le> round_half_even (x / 2 powi ?q)" by (rule rhe_ge)
  then have "(of_int (2 ^ nat (a - ?q)) :: rat) \<le> of_int (round_half_even (x / 2 powi ?q))"
    by (simp only: of_int_le_iff)
  then have "(of_int (2 ^ nat (a - ?q)) :: rat) * 2 powi ?q \<le> of_int (round_half_even (x / 2 powi ?q)) * 2 powi ?q"
    using p by (simp only: mult_le_cancel_right_pos)
  then show ?thesis using pow2_split[OF q] x by (simp only: round_double_pos)
qed

lemma round_double_mono_pos:
  assumes x: "0 < x" and xy: "x \<le> y"
  shows "round_double x \<le> round_double y"
proof -
  have y: "0 < y" using x xy by simp
  have b: "binade x \<le> binade y" using x xy by (rule binade_mono)
  then have q: "ulp_exp x \<le> ulp_exp y" by (simp add: ulp_exp_def)
  show ?thesis
  proof (cases "ulp_exp x = ulp_exp y")
    case True
    have "x / 2 powi (ulp_exp y) \<le> y / 2 powi (ulp_exp y)" using xy by (simp add: divide_right_mono)
    then have "round_half_even (x / 2 powi (ulp_exp y)) \<le> round_half_even (y / 2 powi (ulp_exp y))"
      by (rule rhe_mono)
    then have "(of_int (round_half_even (x / 2 powi (ulp_exp y))) :: rat) \<le> of_int (round_half_even (y / 2 powi (ulp_exp y)))"
      by (simp only: of_int_le_iff)
    then show ?thesis using x y True by (simp add: round_double_pos)
  next
    case False
    with q have lt: "ulp_exp x < ulp_exp y" by simp
    then have bl: "binade x < binade y" by (auto simp: ulp_exp_def)
    have qy: "ulp_exp y \<le> binade y" by (simp add: ulp_exp_def) (use lt in \<open>auto simp: ulp_exp_def\<close>)
    have qx: "ulp_exp x \<le> binade y" using lt qy by simp
    have "x < 2 powi (binade x + 1)" using binade_bounds[OF x] by simp
    also have "\<dots> \<le> 2 powi (binade y)" using bl by (intro power_int_increasing) auto
    finally have "x \<le> 2 powi (binade y)" by simp
    then have 1: "round_double x \<le> 2 powi (binade y)" using x qx by (intro round_double_le_pow2)
    have "2 powi (binade y) \<le> y" using binade_bounds[OF y] by simp
    then have 2: "2 powi (binade y) \<le> round_double y" using y qy by (intro round_double_ge_pow2)
    from 1 2 show ?thesis by simp
  qed
qed

lemma round_double_mono: "0 \<le> x \<Longrightarrow> x \<le> y \<Longrightarrow> round_double x \<le> round_double y"
proof (cases "x = 0")
  case True
  assume "x \<le> y"
  with True have "0 \<le> y" by simp
  then show ?thesis using True round_double_nonneg[of y] by (simp add: round_double_def)
next
  case False
  assume "0 \<le> x" "x \<le> y"
  with False show ?thesis by (intro round_double_mono_pos) auto
qed

lemma round_double_eval:
  assumes "2 powi e \<le> x" "x < 2 powi (e + 1)" "- 1022 \<le> e"
  shows "round_double x = of_int (round_half_even (x / 2 powi (e - 52))) * 2 powi (e - 52)"
proof -
  have x0: "0 < x" using assms(1) zero_less_power_int[of "2::rat" e] by linarith
  have "binade x = e" using assms(1,2) by (rule binade_unique)
  then have "ulp_exp x = e - 52" using assms(3) by (simp add: ulp_exp_def)
  then show ?thesis using x0 by (simp add: round_double_pos)
qed

lemma floor_numeral_div: "\<lfloor>(numeral a :: rat) / numeral b\<rfloor> = numeral a div numeral b"
  using floor_divide_of_int_eq[of "numeral a" "numeral b", where ?'a = rat] by simp

lemma threshold_exact:
  assumes D: "round_double (of_int n / 20) = D"
    and P: "round_double (D - 1 / 2 ^ 53) = D - 1 / 2 ^ 53"
    and near: "of_int n / 20 - 1 / 2 ^ 54 \<le> D"
    and pos: "0 \<le> D - 1 / 2 ^ 53"
    and n: "0 \<le> n" and a: "0 \<le> a" and b: "0 < b" "b < 2 ^ 48"
  shows "D \<le> round_double (of_int a / of_int b) \<longleftrightarrow> n * b \<le> 20 * a"
proof
  assume "n * b \<le> 20 * a"
  then have "(of_int (n * b) :: rat) \<le> of_int (20 * a)" by (simp only: of_int_le_iff)
  then have "(of_int n :: rat) / 20 \<le> of_int a / of_int b" using b by (simp add: field_simps)
  moreover have "(0::rat) \<le> of_int n / 20" using n by simp
  ultimately have "round_double (of_int n / 20) \<le> round_double (of_int a / of_int b)"
    by (intro round_double_mono)
  then show "D \<le> round_double (of_int a / of_int b)" using D by simp
next
  assume le: "D \<le> round_double (of_int a / of_int b)"
  show "n * b \<le> 20 * a"
  proof (rule ccontr)
    assume "\<not> n * b \<le> 20 * a"
    then have "20 * a + 1 \<le> n * b" by simp
    then have "(of_int (20 * a + 1) :: rat) \<le> of_int (n * b)" by (simp only: of_int_le_iff)
    then have 1: "(of_int a :: rat) / of_int b \<le> of_int n / 20 - 1 / (20 * of_int b)"
      using b by (simp add: field_simps)
    have "60 * b \<le> 2 ^ 54" using b by simp
    then have "(of_int (60 * b) :: rat) \<le> of_int (2 ^ 54)" by (simp only: of_int_le_iff)
    then have 2: "(3::rat) / 2 ^ 54 \<le> 1 / (20 * of_int b)" using b by (simp add: field_simps)
    have x0: "(0::rat) \<le> of_int a / of_int b" using a b by simp
    have "(of_int a :: rat) / of_int b \<le> D - 1 / 2 ^ 53" using 1 2 near by simp
    then have "round_double (of_int a / of_int b) \<le> round_double (D - 1 / 2 ^ 53)"
      using x0 by (intro round_double_mono)
    then have "round_double (of_int a / of_int b) \<le> D - 1 / 2 ^ 53" using P by simp
    then have "round_double (of_int a / of_int b) < D" by simp
    with le show False by simp
  qed
qed

lemma lit_19: "round_double (95 / 100) = 8556839292003942 / 2 ^ 53"
  by (subst round_double_eval[where e = "-1"]) (simp_all add: round_half_even_def Let_def floor_numeral_div)

lemma lit_19_pred: "round_double (8556839292003941 / 2 ^ 53) = 8556839292003941 / 2 ^ 53"
  by (subst round_double_eval[where e = "-1"]) (simp_all add: round_half_even_def Let_def floor_numeral_div)

lemma thr_19:
  assumes "0 \<le> a" "0 < b" "b < 2 ^ 48"
  shows "round_double (95 / 100) \<le> round_double (of_int a / of_int b) \<longleftrightarrow> 19 * b \<le> 20 * a"
proof -
  have "8556839292003942 / 2 ^ 53 \<le> round_double (of_int a / of_int b) \<longleftrightarrow> 19 * b \<le> 20 * a"
  proof (rule threshold_exact)
    show "round_double (of_int 19 / 20) = 8556839292003942 / 2 ^ 53" using lit_19 by simp
    show "round_double (8556839292003942 / 2 ^ 53 - 1 / 2 ^ 53) = 8556839292003942 / 2 ^ 53 - 1 / 2 ^ 53"
      using lit_19_pred by simp
  qed (use assms in simp_all)
  then show ?thesis by (simp only: lit_19)
qed

lemma lit_18: "round_double (9 / 10) = 8106479329266893 / 2 ^ 53"
  by (subst round_double_eval[where e = "-1"]) (simp_all add: round_half_even_def Let_def floor_numeral_div)

lemma lit_18_pred: "round_double (8106479329266892 / 2 ^ 53) = 8106479329266892 / 2 ^ 53"
  by (subst round_double_eval[where e = "-1"]) (simp_all add: round_half_even_def Let_def floor_numeral_div)

lemma thr_18:
  assumes "0 \<le> a" "0 < b" "b < 2 ^ 48"
  shows "round_double (9 / 10) \<le> round_double (of_int a / of_int b) \<longleftrightarrow> 18 * b \<le> 20 * a"
proof -
  have "8106479329266893 / 2 ^ 53 \<le> round_double (of_int a / of_int b) \<longleftrightarrow> 18 * b \<le> 20 * a"
  proof (rule threshold_exact)
    show "round_double (of_int 18 / 20) = 8106479329266893 / 2 ^ 53" using lit_18 by simp
    show "round_double (8106479329266893 / 2 ^ 53 - 1 / 2 ^ 53) = 8106479329266893 / 2 ^ 53 - 1 / 2 ^ 53"
      using lit_18_pred by simp
  qed (use assms in simp_all)
  then show ?thesis by (simp only: lit_18)
qed

lemma lit_17: "round_double (85 / 100) = 7656119366529843 / 2 ^ 53"
  by (subst round_double_eval[where e = "-1"]) (simp_all add: round_half_even_def Let_def floor_numeral_div)

lemma lit_17_pred: "round_double (7656119366529842 / 2 ^ 53) = 7656119366529842 / 2 ^ 53"
  by (subst round_double_eval[where e = "-1"]) (simp_all add: round_half_even_def Let_def floor_numeral_div)

lemma thr_17:
  assumes "0 \<le> a" "0 < b" "b < 2 ^ 48"
  shows "round_double (85 / 100) \<le> round_double (of_int a / of_int b) \<longleftrightarrow> 17 * b \<le> 20 * a"
proof -
  have "7656119366529843 / 2 ^ 53 \<le> round_double (of_int a / of_int b) \<longleftrightarrow> 17 * b \<le> 20 * a"
  proof (rule threshold_exact)
    show "round_double (of_int 17 / 20) = 7656119366529843 / 2 ^ 53" using lit_17 by simp
    show "round_double (7656119366529843 / 2 ^ 53 - 1 / 2 ^ 53) = 7656119366529843 / 2 ^ 53 - 1 / 2 ^ 53"
      using lit_17_pred by simp
  qed (use assms in simp_all)
  then show ?thesis by (simp only: lit_17)
qed

lemma lit_15: "round_double (75 / 100) = 6755399441055744 / 2 ^ 53"
  by (subst round_double_eval[where e = "-1"]) (simp_all add: round_half_even_def Let_def floor_numeral_div)

lemma lit_15_pred: "round_double (6755399441055743 / 2 ^ 53) = 6755399441055743 / 2 ^ 53"
  by (subst round_double_eval[where e = "-1"]) (simp_all add: round_half_even_def Let_def floor_numeral_div)

lemma thr_15:
  assumes "0 \<le> a" "0 < b" "b < 2 ^ 48"
  shows "round_double (75 / 100) \<le> round_double (of_int a / of_int b) \<longleftrightarrow> 15 * b \<le> 20 * a"
proof -
  have "6755399441055744 / 2 ^ 53 \<le> round_double (of_int a / of_int b) \<longleftrightarrow> 15 * b \<le> 20 * a"
  proof (rule threshold_exact)
    show "round_double (of_int 15 / 20) = 6755399441055744 / 2 ^ 53" using lit_15 by simp
    show "round_double (6755399441055744 / 2 ^ 53 - 1 / 2 ^ 53) = 6755399441055744 / 2 ^ 53 - 1 / 2 ^ 53"
      using lit_15_pred by simp
  qed (use assms in simp_all)
  then show ?thesis by (simp only: lit_15)
qed

lemma lit_14: "round_double (7 / 10) = 6305039478318694 / 2 ^ 53"
  by (subst round_double_eval[where e = "-1"]) (simp_all add: round_half_even_def Let_def floor_numeral_div)

lemma lit_14_pred: "round_double (6305039478318693 / 2 ^ 53) = 6305039478318693 / 2 ^ 53"
  by (subst round_double_eval[where e = "-1"]) (simp_all add: round_half_even_def Let_def floor_numeral_div)

lemma thr_14:
  assumes "0 \<le> a" "0 < b" "b < 2 ^ 48"
  shows "round_double (7 / 10) \<le> round_double (of_int a / of_int b) \<longleftrightarrow> 14 * b \<le> 20 * a"
proof -
  have "6305039478318694 / 2 ^ 53 \<le> round_double (of_int a / of_int b) \<longleftrightarrow> 14 * b \<le> 20 * a"
  proof (rule threshold_exact)
    show "round_double (of_int 14 / 20) = 6305039478318694 / 2 ^ 53" using lit_14 by simp
    show "round_double (6305039478318694 / 2 ^ 53 - 1 / 2 ^ 53) = 6305039478318694 / 2 ^ 53 - 1 / 2 ^ 53"
      using lit_14_pred by simp
  qed (use assms in simp_all)
  then show ?thesis by (simp only: lit_14)
qed

lemma lit_13: "round_double (65 / 100) = 5854679515581645 / 2 ^ 53"
  by (subst round_double_eval[where e = "-1"]) (simp_all add: round_half_even_def Let_def floor_numeral_div)

lemma lit_13_pred: "round_double (5854679515581644 / 2 ^ 53) = 5854679515581644 / 2 ^ 53"
  by (subst round_double_eval[where e = "-1"]) (simp_all add: round_half_even_def Let_def floor_numeral_div)

lemma thr_13:
  assumes "0 \<le> a" "0 < b" "b < 2 ^ 48"
  shows "round_double (65 / 100) \<le> round_double (of_int a / of_int b) \<longleftrightarrow> 13 * b \<le> 20 * a"
proof -
  have "5854679515581645 / 2 ^ 53 \<le> round_double (of_int a / of_int b) \<longleftrightarrow> 13 * b \<le> 20 * a"
  proof (rule threshold_exact)
    show "round_double (of_int 13 / 20) = 5854679515581645 / 2 ^ 53" using lit_13 by simp
    show "round_double (5854679515581645 / 2 ^ 53 - 1 / 2 ^ 53) = 5854679515581645 / 2 ^ 53 - 1 / 2 ^ 53"
      using lit_13_pred by simp
  qed (use assms in simp_all)
  then show ?thesis by (simp only: lit_13)
qed

lemma lit_12: "round_double (6 / 10) = 5404319552844595 / 2 ^ 53"
  by (subst round_double_eval[where e = "-1"]) (simp_all add: round_half_even_def Let_def floor_numeral_div)

lemma lit_12_pred: "round_double (5404319552844594 / 2 ^ 53) = 5404319552844594 / 2 ^ 53"
  by (subst round_double_eval[where e = "-1"]) (simp_all add: round_half_even_def Let_def floor_numeral_div)

lemma thr_12:
  assumes "0 \<le> a" "0 < b" "b < 2 ^ 48"
  shows "round_double (6 / 10) \<le> round_double (of_int a / of_int b) \<longleftrightarrow> 12 * b \<le> 20 * a"
proof -
  have "5404319552844595 / 2 ^ 53 \<le> round_double (of_int a / of_int b) \<longleftrightarrow> 12 * b \<le> 20 * a"
  proof (rule threshold_exact)
    show "round_double (of_int 12 / 20) = 5404319552844595 / 2 ^ 53" using lit_12 by simp
    show "round_double (5404319552844595 / 2 ^ 53 - 1 / 2 ^ 53) = 5404319552844595 / 2 ^ 53 - 1 / 2 ^ 53"
      using lit_12_pred by simp
  qed (use assms in simp_all)
  then show ?thesis by (simp only: lit_12)
qed

lemma lit_11: "round_double (55 / 100) = 4953959590107546 / 2 ^ 53"
  by (subst round_double_eval[where e = "-1"]) (simp_all add: round_half_even_def Let_def floor_numeral_div)

lemma lit_11_pred: "round_double (4953959590107545 / 2 ^ 53) = 4953959590107545 / 2 ^ 53"
  by (subst round_double_eval[where e = "-1"]) (simp_all add: round_half_even_def Let_def floor_numeral_div)

lemma thr_11:
  assumes "0 \<le> a" "0 < b" "b < 2 ^ 48"
  shows "round_double (55 / 100) \<le> round_double (of_int a / of_int b) \<longleftrightarrow> 11 * b \<le> 20 * a"
proof -
  have "4953959590107546 / 2 ^ 53 \<le> round_double (of_int a / of_int b) \<longleftrightarrow> 11 * b \<le> 20 * a"
  proof (rule threshold_exact)
    show "round_double (of_int 11 / 20) = 4953959590107546 / 2 ^ 53" using lit_11 by simp
    show "round_double (4953959590107546 / 2 ^ 53 - 1 / 2 ^ 53) = 4953959590107546 / 2 ^ 53 - 1 / 2 ^ 53"
      using lit_11_pred by simp
  qed (use assms in simp_all)
  then show ?thesis by (simp only: lit_11)
qed

lemma lit_10: "round_double (5 / 10) = 4503599627370496 / 2 ^ 53"
  by (subst round_double_eval[where e = "-1"]) (simp_all add: round_half_even_def Let_def floor_numeral_div)

lemma lit_10_pred: "round_double (9007199254740990 / 2 ^ 54) = 9007199254740990 / 2 ^ 54"
  by (subst round_double_eval[where e = "-2"]) (simp_all add: round_half_even_def Let_def floor_numeral_div)

lemma thr_10:
  assumes "0 \<le> a" "0 < b" "b < 2 ^ 48"
  shows "round_double (5 / 10) \<le> round_double (of_int a / of_int b) \<longleftrightarrow> 10 * b \<le> 20 * a"
proof -
  have "4503599627370496 / 2 ^ 53 \<le> round_double (of_int a / of_int b) \<longleftrightarrow> 10 * b \<le> 20 * a"
  proof (rule threshold_exact)
    show "round_double (of_int 10 / 20) = 4503599627370496 / 2 ^ 53" using lit_10 by simp
    show "round_double (4503599627370496 / 2 ^ 53 - 1 / 2 ^ 53) = 4503599627370496 / 2 ^ 53 - 1 / 2 ^ 53"
      using lit_10_pred by simp
  qed (use assms in simp_all)
  then show ?thesis by (simp only: lit_10)
qed

lemma lit_9: "round_double (45 / 100) = 8106479329266893 / 2 ^ 54"
  by (subst round_double_eval[where e = "-2"]) (simp_all add: round_half_even_def Let_def floor_numeral_div)

lemma lit_9_pred: "round_double (8106479329266891 / 2 ^ 54) = 8106479329266891 / 2 ^ 54"
  by (subst round_double_eval[where e = "-2"]) (simp_all add: round_half_even_def Let_def floor_numeral_div)

lemma thr_9:
  assumes "0 \<le> a" "0 < b" "b < 2 ^ 48"
  shows "round_double (45 / 100) \<le> round_double (of_int a / of_int b) \<longleftrightarrow> 9 * b \<le> 20 * a"
proof -
  have "8106479329266893 / 2 ^ 54 \<le> round_double (of_int a / of_int b) \<longleftrightarrow> 9 * b \<le> 20 * a"
  proof (rule threshold_exact)
    show "round_double (of_int 9 / 20) = 8106479329266893 / 2 ^ 54" using lit_9 by simp
    show "round_double (8106479329266893 / 2 ^ 54 - 1 / 2 ^ 53) = 8106479329266893 / 2 ^ 54 - 1 / 2 ^ 53"
      using lit_9_pred by simp
  qed (use assms in simp_all)
  then show ?thesis by (simp only: lit_9)
qed

section \<open>The scoring function against the exact table\<close>

lemma binade_pow2: "binade (2 powi e) = e"
  by (rule binade_unique) (simp_all add: power_int_strict_increasing)

lemma py_truediv_small:
  assumes a: "0 \<le> a" "a < 2 ^ 1023" and b: "0 < b"
  shows "py_truediv a b = Inr (round_double (of_int a / of_int b))"
proof -
  let ?x = "(of_int a :: rat) / of_int b"
  have x0: "0 \<le> ?x" using a b by simp
  have "(of_int a :: rat) \<le> of_int a * of_int b"
    using a b by (simp add: mult_le_cancel_left1 flip: of_int_mult)
  then have "?x \<le> of_int a" using b by (simp add: field_simps)
  moreover have "(of_int a :: rat) \<le> of_int (2 ^ 1023)" using a by (simp only: of_int_le_iff)
  ultimately have xle: "?x \<le> 2 powi 1023" by simp
  have r0: "0 \<le> round_double ?x" using x0 by (rule round_double_nonneg)
  have "round_double ?x \<le> 2 powi 1023"
  proof (cases "?x = 0")
    case True
    then show ?thesis by (simp add: round_double_def)
  next
    case False
    with x0 have xp: "0 < ?x" by (simp only: less_le) simp
    have "binade ?x \<le> binade (2 powi 1023)" using xp xle by (rule binade_mono)
    then have "binade ?x \<le> 1023" by (simp only: binade_pow2)
    then have "ulp_exp ?x \<le> 1023" by (simp add: ulp_exp_def)
    with xp xle show ?thesis by (intro round_double_le_pow2)
  qed
  then have "round_double ?x < 2 ^ 1024" by simp
  with r0 have "\<not> 2 ^ 1024 \<le> \<bar>round_double ?x\<bar>" by simp
  then show ?thesis using b by (simp add: py_truediv_def Let_def)
qed

lemma frac_ge:
  assumes "0 < b"
  shows "(of_int n :: rat) / 20 \<le> of_int a / of_int b \<longleftrightarrow> n * b \<le> 20 * a"
proof -
  have "(of_int n :: rat) / 20 \<le> of_int a / of_int b \<longleftrightarrow> (of_int (n * b) :: rat) \<le> of_int (20 * a)"
    using assms by (simp add: field_simps)
  then show ?thesis by (simp only: of_int_le_iff)
qed

lemma spec_band_unfold:
  assumes "0 < b"
  shows "spec_band a b =
     (if 19 * b \<le> 20 * a then 9
      else if 18 * b \<le> 20 * a then 17 / 2
      else if 17 * b \<le> 20 * a then 8
      else if 15 * b \<le> 20 * a then 15 / 2
      else if 14 * b \<le> 20 * a then 7
      else if 13 * b \<le> 20 * a then 13 / 2
      else if 12 * b \<le> 20 * a then 6
      else if 11 * b \<le> 20 * a then 11 / 2
      else if 10 * b \<le> 20 * a then 5
      else if 9 * b \<le> 20 * a then 9 / 2
      else 4)"
proof -
  have t: "(95 / 100 :: rat) = of_int 19 / 20" "(90 / 100 :: rat) = of_int 18 / 20"
    "(85 / 100 :: rat) = of_int 17 / 20" "(75 / 100 :: rat) = of_int 15 / 20"
    "(70 / 100 :: rat) = of_int 14 / 20" "(65 / 100 :: rat) = of_int 13 / 20"
    "(60 / 100 :: rat) = of_int 12 / 20" "(55 / 100 :: rat) = of_int 11 / 20"
    "(50 / 100 :: rat) = of_int 10 / 20" "(45 / 100 :: rat) = of_int 9 / 20"
    by simp_all
  show ?thesis
    unfolding spec_band_def spec_band_table_def spec_first_match.simps t frac_ge[OF assms] ..
qed

lemma band_of_pct_exact:
  assumes "0 \<le> a" "0 < b" "b < 2 ^ 48"
  shows "band_of_pct (round_double (of_int a / of_int b)) = spec_band a b"
  unfolding band_of_pct_def spec_band_unfold[OF assms(2)]
    thr_19[OF assms] thr_18[OF assms] thr_17[OF assms] thr_15[OF assms] thr_14[OF assms]
    thr_13[OF assms] thr_12[OF assms] thr_11[OF assms] thr_10[OF assms] thr_9[OF assms] ..

lemma band_from_raw_exact:
  assumes "0 \<le> a" "a < 2 ^ 1023" "0 < b" "b < 2 ^ 48"
  shows "band_from_raw a b = Inr (spec_band a b)"
  using assms by (simp add: band_from_raw_def py_truediv_small band_of_pct_exact)

lemma big_round:
  "round_double (of_int 94999999999999999 / of_int 100000000000000000) = 4278419646001971 / 2 ^ 52"
  by (subst round_double_eval[where e = "-1"])
    (simp_all add: round_half_even_def Let_def floor_numeral_div)

section \<open>Scoring: a test without questions\<close>

text \<open>
  C8.  For every value of \<open>raw\<close>, \<open>band_from_raw raw 0\<close> returns \<open>0.0\<close>: the result is a
  value, not the ZeroDivisionError that dividing by a zero total raises.
\<close>

theorem band_from_raw_total_zero:
  "band_from_raw raw 0 = Inr 0 \<and> py_truediv raw 0 = Inl ZeroDivisionError"
  by (simp add: band_from_raw_def py_truediv_def)

section \<open>Scoring: the threshold table\<close>

text \<open>
  C2, as the code has it.  For every \<open>raw\<close> with \<open>0 \<le> raw < 2 ^ 1023\<close> and every
  \<open>tot\<close> with \<open>0 < tot < 2 ^ 48\<close>, \<open>band_from_raw raw tot\<close> returns the band that the
  specification's table gives for the exact percentage \<open>raw / tot\<close>: first match from
  the highest threshold down, 4.0 below 0.45, no threshold at 0.80.
\<close>

theorem band_from_raw_table:
  assumes "0 \<le> raw" "raw < 2 ^ 1023" "0 < tot" "tot < 2 ^ 48"
  shows "band_from_raw raw tot = Inr (spec_band raw tot)"
  using assms by (rule band_from_raw_exact)

text \<open>At 16 of 20 (0.80) the band is 7.5, the band of the 0.75 threshold.\<close>

theorem band_from_raw_table_witness:
  "(0::int) \<le> 16 \<and> (16::int) < 2 ^ 1023 \<and> (0::int) < 20 \<and> (20::int) < 2 ^ 48 \<and>
   band_from_raw 16 20 = Inr (15 / 2) \<and> spec_band 16 20 = 15 / 2"
proof -
  have h: "(0::int) \<le> 16" "(16::int) < 2 ^ 1023" "(0::int) < 20" "(20::int) < 2 ^ 48"
    by simp_all
  have s: "spec_band 16 20 = 15 / 2" by (simp add: spec_band_unfold)
  show ?thesis using h band_from_raw_table[OF h] s by simp
qed

text \<open>
  C2, as the specification states it for every pair of naturals, fails: the percentage
  \<open>94999999999999999 / 10 ^ 17\<close> is below 0.95, so the table gives 8.5, but the
  quotient rounds to the very double the literal \<open>0.95\<close> denotes and the function
  returns 9.0.
\<close>

theorem band_from_raw_table_counterexample:
  "band_from_raw 94999999999999999 100000000000000000 = Inr 9 \<and>
   spec_band 94999999999999999 100000000000000000 = 17 / 2"
proof -
  let ?x = "round_double (of_int 94999999999999999 / of_int 100000000000000000)"
  have p: "py_truediv 94999999999999999 100000000000000000 = Inr ?x"
    by (rule py_truediv_small) simp_all
  have "round_double (95 / 100) \<le> ?x" by (simp only: big_round lit_19) simp
  then have "band_of_pct ?x = 9" by (simp only: band_of_pct_def if_True)
  with p have "band_from_raw 94999999999999999 100000000000000000 = Inr 9"
    by (simp only: band_from_raw_def) simp
  moreover have "spec_band 94999999999999999 100000000000000000 = 17 / 2"
    by (simp add: spec_band_unfold)
  ultimately show ?thesis by simp
qed

text \<open>
  C6, as the code has it.  \<open>band_from_raw 19 20\<close> is 9.0 and \<open>band_from_raw 17 20\<close> is
  8.0: 17 of 20 is exactly 0.85, which reaches the 0.85 threshold and not the 0.90 one.
\<close>

theorem band_from_raw_boundary:
  "band_from_raw 19 20 = Inr 9 \<and> band_from_raw 17 20 = Inr 8"
  by (simp add: band_from_raw_exact spec_band_unfold)

text \<open>C6, as the specification states it, fails: 17 of 20 does not give 8.5.\<close>

theorem band_from_raw_boundary_counterexample:
  "band_from_raw 17 20 \<noteq> Inr (17 / 2)"
  by (simp add: band_from_raw_exact spec_band_unfold)

section \<open>Grading\<close>

text \<open>
  C3.  A multiple-choice question is graded correct iff the response equals the key,
  character by character; a question of any other type is graded correct iff the
  lower-cased response equals the lower-cased key.  The response is compared as it is
  handed over: what \<open>str_strip\<close> is makes no difference to \<open>grade\<close>.
\<close>

theorem grade_rule:
  "(grade ops (Some ''mcq'') (Some key) response = 1 \<longleftrightarrow> response = key) \<and>
   (grade ops (Some ''mcq'') (Some key) response = 0 \<longleftrightarrow> response \<noteq> key) \<and>
   (qtype \<noteq> Some ''mcq'' \<longrightarrow>
      (grade ops qtype (Some key) response = 1 \<longleftrightarrow> str_lower ops response = str_lower ops key) \<and>
      (grade ops qtype (Some key) response = 0 \<longleftrightarrow> str_lower ops response \<noteq> str_lower ops key)) \<and>
   grade (ops\<lparr>str_strip := f\<rparr>) qtype (Some key) response = grade ops qtype (Some key) response"
  by (simp add: grade_def or_empty_def)

theorem grade_rule_witness:
  "Some ''fill'' \<noteq> Some ''mcq'' \<and>
   grade ascii_ops (Some ''fill'') (Some ''Paris'') ''paris'' = 1 \<and>
   grade ascii_ops (Some ''fill'') (Some ''Paris'') '' paris'' = 0 \<and>
   grade ascii_ops (Some ''mcq'') (Some ''B'') ''b'' = 0 \<and>
   grade ascii_ops (Some ''mcq'') (Some ''B'') ''B'' = 1"
proof -
  have l: "str_lower ascii_ops ''paris'' = str_lower ascii_ops ''Paris''"
    "str_lower ascii_ops '' paris'' \<noteq> str_lower ascii_ops ''Paris''"
    by (simp_all add: ascii_ops_def ascii_lower_char_def)
  have n: "Some ''fill'' \<noteq> Some ''mcq''" by simp
  show ?thesis
    using l n
      grade_rule[of ascii_ops "''Paris''" "''paris''" "Some ''fill''"]
      grade_rule[of ascii_ops "''Paris''" "'' paris''" "Some ''fill''"]
      grade_rule[of ascii_ops "''B''" "''b''"]
      grade_rule[of ascii_ops "''B''" "''B''"]
    by simp
qed

text \<open>
  C7, as the code has it.  For a question of any type other than multiple-choice, a NULL
  answer key grades as the empty string does, and the empty response is graded correct
  against it.  For a multiple-choice question a NULL key equals no response: every
  response, the empty one included, is graded incorrect.
\<close>

theorem grade_null_key:
  "(qtype \<noteq> Some ''mcq'' \<longrightarrow>
      grade ops qtype None response = grade ops qtype (Some []) response \<and>
      grade ops qtype None [] = 1) \<and>
   grade ops (Some ''mcq'') None response = 0"
  by (simp add: grade_def or_empty_def)

theorem grade_null_key_witness:
  "Some ''fill'' \<noteq> Some ''mcq'' \<and>
   grade ascii_ops (Some ''fill'') None ''x'' = grade ascii_ops (Some ''fill'') (Some []) ''x'' \<and>
   grade ascii_ops (Some ''fill'') None [] = 1 \<and>
   grade ascii_ops (Some ''mcq'') None ''x'' = 0"
proof -
  have n: "Some ''fill'' \<noteq> Some ''mcq''" by simp
  show ?thesis using n grade_null_key[of "Some ''fill''" ascii_ops "''x''"] by simp
qed

text \<open>
  C7, as the specification states it for every question type, fails for multiple-choice:
  the empty response is graded correct against the empty key and incorrect against NULL.
\<close>

theorem grade_null_key_counterexample:
  "grade ascii_ops (Some ''mcq'') None [] = 0 \<and> grade ascii_ops (Some ''mcq'') (Some []) [] = 1"
  by (simp add: grade_def)

end
